theory Spec2Isabelle
  imports Main "HOL-Library.Multiset"
begin

section \<open>Python text\<close>

text \<open>
  A Python \<open>str\<close> is modelled as a \<open>string\<close> whose characters stand for the code points
  U+0000 to U+00FF. The built-in methods the program calls are defined on that range as
  CPython defines them: \<open>str.isspace\<close> and \<open>str.strip\<close> treat the code points 9-13, 28-32,
  133 and 160 (the non-breaking space) as white space; \<open>str.isdigit\<close> accepts the ten
  decimal digits and the superscripts U+00B2, U+00B3 and U+00B9; \<open>str.lower\<close> maps A-Z and
  U+00C0-U+00DE (without U+00D7) to the code point 32 above.
\<close>

definition py_isspace :: "char \<Rightarrow> bool" where
  "py_isspace c = (let n = (of_char c :: nat) in
     (9 \<le> n \<and> n \<le> 13) \<or> (28 \<le> n \<and> n \<le> 32) \<or> n = 133 \<or> n = 160)"

definition strip :: "string \<Rightarrow> string" where
  "strip s = rev (dropWhile py_isspace (rev (dropWhile py_isspace s)))"

definition NBSP :: char where
  "NBSP = CHR 0xA0"

text \<open>\<^verbatim>\<open>s.replace('\xa0', '')\<close>\<close>

definition remove_nbsp :: "string \<Rightarrow> string" where
  "remove_nbsp s = filter (\<lambda>c. c \<noteq> NBSP) s"

definition py_lower_char :: "char \<Rightarrow> char" where
  "py_lower_char c = (let n = (of_char c :: nat) in
     if (65 \<le> n \<and> n \<le> 90) \<or> (192 \<le> n \<and> n \<le> 222 \<and> n \<noteq> 215)
     then char_of (n + 32) else c)"

definition lower :: "string \<Rightarrow> string" where
  "lower s = map py_lower_char s"

definition is_decimal :: "char \<Rightarrow> bool" where
  "is_decimal c = (let n = (of_char c :: nat) in 48 \<le> n \<and> n \<le> 57)"

definition py_isdigit_char :: "char \<Rightarrow> bool" where
  "py_isdigit_char c = (let n = (of_char c :: nat) in
     (48 \<le> n \<and> n \<le> 57) \<or> n = 178 \<or> n = 179 \<or> n = 185)"

text \<open>\<open>str.isdigit\<close> is false on the empty string.\<close>

definition isdigit :: "string \<Rightarrow> bool" where
  "isdigit s = (s \<noteq> [] \<and> list_all py_isdigit_char s)"

fun startswith :: "string \<Rightarrow> string \<Rightarrow> bool" where
  "startswith s [] = True"
| "startswith [] (p # ps) = False"
| "startswith (c # cs) (p # ps) = (c = p \<and> startswith cs ps)"

definition endswith :: "string \<Rightarrow> string \<Rightarrow> bool" where
  "endswith s p = startswith (rev s) (rev p)"

text \<open>\<^verbatim>\<open>p in s\<close> on two strings: \<open>p\<close> occurs in \<open>s\<close> as a contiguous run.\<close>

fun py_in :: "string \<Rightarrow> string \<Rightarrow> bool" where
  "py_in p [] = (p = [])"
| "py_in p (c # cs) = (startswith (c # cs) p \<or> py_in p cs)"

text \<open>
  \<open>int(s)\<close> in base ten: white space around the literal is dropped, one sign is allowed,
  and the digits may be grouped by single underscores. \<open>None\<close> stands for \<open>ValueError\<close>.
  The interpreter's limit on the number of digits of a literal is not modelled.
\<close>

fun parse_digits :: "bool \<Rightarrow> nat \<Rightarrow> string \<Rightarrow> nat option" where
  "parse_digits prev acc [] = (if prev then Some acc else None)"
| "parse_digits prev acc (c # cs) =
     (if is_decimal c then parse_digits True (10 * acc + (of_char c - 48)) cs
      else if c = CHR ''_'' \<and> prev then parse_digits False acc cs
      else None)"

definition py_int :: "string \<Rightarrow> int option" where
  "py_int s =
     (case strip s of
        [] \<Rightarrow> None
      | c # cs \<Rightarrow>
          if c = CHR ''+'' then map_option int (parse_digits False 0 cs)
          else if c = CHR ''-'' then map_option (\<lambda>n. - int n) (parse_digits False 0 cs)
          else map_option int (parse_digits False 0 (c # cs)))"

text \<open>\<open>s.split()\<close>: the maximal runs of characters that are not white space.\<close>

fun split_from :: "string \<Rightarrow> string \<Rightarrow> string list" where
  "split_from cur [] = (if cur = [] then [] else [cur])"
| "split_from cur (c # cs) =
     (if py_isspace c then (if cur = [] then split_from [] cs else cur # split_from [] cs)
      else split_from (cur @ [c]) cs)"

definition py_split :: "string \<Rightarrow> string list" where
  "py_split s = split_from [] s"

text \<open>\<^verbatim>\<open>' '.join(ts)\<close>\<close>

fun join :: "string list \<Rightarrow> string" where
  "join [] = []"
| "join [t] = t"
| "join (t # u # ts) = t @ '' '' @ join (u # ts)"


section \<open>The parsed document\<close>

text \<open>
  The program never parses HTML itself: it hands the text of a response to BeautifulSoup
  and works on the tree it gets back. The model starts at that tree. A node is a string
  of text or a tag with its name, its attributes as written in the page, and its
  children in document order. The document object is itself a tag, the root.
\<close>

datatype node = NavigableString string | Tag string "string \<rightharpoonup> string" "node list"

text \<open>All nodes below a node, in document order (the node itself is not among them).\<close>

fun descendants :: "node \<Rightarrow> node list" where
  "descendants (NavigableString s) = []"
| "descendants (Tag n a cs) = concat (map (\<lambda>c. c # descendants c) cs)"

text \<open>\<open>tag.text\<close>: the strings below the tag, concatenated.\<close>

fun get_text :: "node \<Rightarrow> string" where
  "get_text (NavigableString s) = s"
| "get_text (Tag n a cs) = concat (map get_text cs)"

fun get_attr :: "node \<Rightarrow> string \<Rightarrow> string option" where
  "get_attr (NavigableString s) k = None"
| "get_attr (Tag n a cs) k = a k"

text \<open>
  BeautifulSoup keeps \<open>class\<close> (on every tag) and \<open>headers\<close> (on \<open>td\<close> and \<open>th\<close>) as the list
  of their white-space separated tokens; these are the only attributes the program
  searches by, and it searches \<open>headers\<close> on \<open>td\<close> only. \<open>tag.get('class')\<close> is that list.
\<close>

definition token_list :: "node \<Rightarrow> string \<Rightarrow> string list option" where
  "token_list t k = map_option py_split (get_attr t k)"

text \<open>
  How a search value matches such an attribute: some token is one of the wanted strings,
  or the tokens joined by single spaces are. A tag without the attribute does not match
  (every search value of the program is a non-empty string).
\<close>

definition attr_matches :: "string list option \<Rightarrow> string list \<Rightarrow> bool" where
  "attr_matches v wanted =
     (case v of
        None \<Rightarrow> False
      | Some ts \<Rightarrow> list_ex (\<lambda>t. t \<in> set wanted) ts \<or> join ts \<in> set wanted)"

fun matches_tag :: "string \<Rightarrow> (string \<times> string list) list \<Rightarrow> node \<Rightarrow> bool" where
  "matches_tag name want (NavigableString s) = False"
| "matches_tag name want (Tag n a cs) =
     (if n = name
      then list_all (\<lambda>(k, wanted). attr_matches (map_option py_split (a k)) wanted) want
      else False)"

text \<open>\<open>node.find_all(name, attrs)\<close> and \<open>node.find(name, attrs)\<close>, its first result.\<close>

definition find_all :: "string \<Rightarrow> (string \<times> string list) list \<Rightarrow> node \<Rightarrow> node list" where
  "find_all name want t = filter (matches_tag name want) (descendants t)"

definition find :: "string \<Rightarrow> (string \<times> string list) list \<Rightarrow> node \<Rightarrow> node option" where
  "find name want t = (case find_all name want t of [] \<Rightarrow> None | x # _ \<Rightarrow> Some x)"


section \<open>The outside world, effects and errors\<close>

text \<open>
  What the network answers to a request. \<open>RequestException\<close> is the exception of the
  \<open>requests\<close> library; a response carries its status code and the tree BeautifulSoup
  builds from its text. The world is fixed during one run.
\<close>

datatype response = RequestException | Response nat node

record world =
  http_head :: "string \<Rightarrow> nat option"
  http_get :: "string \<Rightarrow> response"
  can_write :: "string \<Rightarrow> bool"

text \<open>
  What a run does to the world, in order: the requests it sends and the table it writes
  (file name, then the header row followed by the data rows).
\<close>

datatype effect = HEAD string | GET string | WRITE string "string list list"

text \<open>
  How a run ends early. Each \<open>sys.exit(1)\<close> of the source is one constructor, named after
  the condition it reports; an exception the source does not catch ends the run as
  \<open>Uncaught\<close>.
  \<^item> \<open>UsageError\<close>: one of the four exits of \<open>validate_arguments\<close>;
  \<^item> \<open>UrlUnavailable\<close>: the exits of \<open>validate_url\<close>;
  \<^item> \<open>InvalidInput\<close>: the exit of \<open>get_url_from_name\<close> on a numeric name;
  \<^item> \<open>NotFound\<close>: the exit of \<open>get_url_from_name\<close> after its loops;
  \<^item> \<open>FetchError\<close>: the exit of \<open>fetch_page\<close> on a status other than 200;
  \<^item> \<open>EmptyResult\<close>: the exit of \<open>main\<close> when no district was collected;
  \<^item> \<open>WriteError\<close>: the exit of \<open>write_to_csv\<close> when writing raises.
\<close>

datatype exn = RequestError | AttributeError | TypeError | KeyError

datatype error =
    UsageError | UrlUnavailable | InvalidInput | NotFound | FetchError nat
  | EmptyResult | WriteError | Uncaught exn

type_synonym 'a io = "effect list \<times> (error + 'a)"

definition bind :: "'a io \<Rightarrow> ('a \<Rightarrow> 'b io) \<Rightarrow> 'b io" where
  "bind m f =
     (case m of
        (e1, Inl err) \<Rightarrow> (e1, Inl err)
      | (e1, Inr x) \<Rightarrow> (case f x of (e2, r) \<Rightarrow> (e1 @ e2, r)))"


section \<open>The program\<close>

definition BASE_URL :: string where
  "BASE_URL = ''https://www.volby.cz/pls/ps2017nss/ps3?xjazyk=CZ''"

definition SITE :: string where
  "SITE = ''https://www.volby.cz/pls/ps2017nss/''"

definition validate_arguments :: "string list \<Rightarrow> error + (string \<times> string)" where
  "validate_arguments args =
     (if length args \<noteq> 3 then Inl UsageError
      else let input_value = args ! 1; csv_file = args ! 2 in
        if input_value = [] then Inl UsageError
        else if py_in ''volby.cz'' input_value \<and> \<not> startswith input_value ''http''
          then Inl UsageError
        else if \<not> endswith (lower csv_file) ''.csv'' then Inl UsageError
        else Inr (input_value, csv_file))"

definition validate_url :: "world \<Rightarrow> string \<Rightarrow> unit io" where
  "validate_url w url =
     ([HEAD url],
      case http_head w url of
        None \<Rightarrow> Inl UrlUnavailable
      | Some status \<Rightarrow> if status \<noteq> 200 then Inl UrlUnavailable else Inr ())"

definition fetch_page :: "world \<Rightarrow> string \<Rightarrow> node io" where
  "fetch_page w url =
     ([GET url],
      case http_get w url of
        RequestException \<Rightarrow> Inl (Uncaught RequestError)
      | Response status soup \<Rightarrow> if status \<noteq> 200 then Inl (FetchError status) else Inr soup)"

text \<open>
  The two loops of \<open>get_url_from_name\<close>. \<open>None\<close> means the loop ran to its end; \<open>Some r\<close>
  means it left the function at a matching row: with the address, or with the exception
  of \<^verbatim>\<open>cells[3].find('a')['href']\<close> when the cell has no link (\<open>TypeError\<close>) or the link has
  no \<open>href\<close> (\<open>KeyError\<close>).
\<close>

definition row_matches :: "string \<Rightarrow> node \<Rightarrow> bool" where
  "row_matches district_name row =
     (let cells = find_all ''td'' [] row in
      if length cells > 3
      then lower (strip (get_text (cells ! 1))) = lower district_name
      else False)"

definition row_url :: "node \<Rightarrow> error + string" where
  "row_url row =
     (let cells = find_all ''td'' [] row in
      case find ''a'' [] (cells ! 3) of
        None \<Rightarrow> Inl (Uncaught TypeError)
      | Some a \<Rightarrow>
          (case get_attr a ''href'' of
             None \<Rightarrow> Inl (Uncaught KeyError)
           | Some url \<Rightarrow> Inr (SITE @ url)))"

fun scan_rows :: "string \<Rightarrow> node list \<Rightarrow> (error + string) option" where
  "scan_rows district_name [] = None"
| "scan_rows district_name (row # rows) =
     (if row_matches district_name row then Some (row_url row)
      else scan_rows district_name rows)"

fun scan_tables :: "string \<Rightarrow> node list \<Rightarrow> (error + string) option" where
  "scan_tables district_name [] = None"
| "scan_tables district_name (table # tables) =
     (case scan_rows district_name (drop 2 (find_all ''tr'' [] table)) of
        Some r \<Rightarrow> Some r
      | None \<Rightarrow> scan_tables district_name tables)"

definition get_url_from_name :: "world \<Rightarrow> string \<Rightarrow> string io" where
  "get_url_from_name w district_name =
     (if isdigit district_name then ([], Inl InvalidInput)
      else bind (fetch_page w BASE_URL) (\<lambda>soup.
        let tables = find_all ''table'' [(''class'', [''table''])] soup in
        ([], case scan_tables district_name tables of
               Some r \<Rightarrow> r
             | None \<Rightarrow> Inl NotFound)))"

text \<open>\<^verbatim>\<open>cell.text.strip().replace('\xa0', '')\<close>\<close>

definition cell_value :: "node \<Rightarrow> string" where
  "cell_value cell = remove_nbsp (strip (get_text cell))"

definition stat :: "node \<Rightarrow> string \<Rightarrow> string" where
  "stat soup h =
     (case find ''td'' [(''headers'', [h])] soup of
        Some cell \<Rightarrow> cell_value cell
      | None \<Rightarrow> ''N/A'')"

definition extract_district_stats :: "node \<Rightarrow> (string \<rightharpoonup> string)" where
  "extract_district_stats soup =
     [''registered'' \<mapsto> stat soup ''sa2'',
      ''envelopes'' \<mapsto> stat soup ''sa3'',
      ''valid'' \<mapsto> stat soup ''sa6'']"

definition code_cell :: "node \<Rightarrow> node option" where
  "code_cell row =
     find ''td'' [(''class'', [''cislo'']), (''headers'', [''t1sa1 t1sb1'', ''t2sa1 t2sb1''])] row"

definition name_cell :: "node \<Rightarrow> node option" where
  "name_cell row = find ''td'' [(''class'', [''overflow_name''])] row"

definition vote_cells :: "node \<Rightarrow> node list" where
  "vote_cells row = find_all ''td'' [(''class'', [''cislo''])] row"

definition extract_party_data :: "node \<Rightarrow> (int \<times> string \<times> string) option" where
  "extract_party_data row =
     (case (code_cell row, name_cell row) of
        (Some cislo_cell, Some party_name_cell) \<Rightarrow>
          if length (vote_cells row) > 1 then
            (case py_int (strip (get_text cislo_cell)) of
               None \<Rightarrow> None
             | Some cislo_value \<Rightarrow>
                 Some (cislo_value, strip (get_text party_name_cell),
                       cell_value (vote_cells row ! 1)))
          else None
      | _ \<Rightarrow> None)"

text \<open>
  \<open>list.sort(key=...)\<close> is stable, as \<open>sort_key\<close> is: elements with equal keys keep their
  order.
\<close>

definition party_list :: "node \<Rightarrow> (int \<times> string \<times> string) list" where
  "party_list soup =
     sort_key fst (List.map_filter extract_party_data (find_all ''tr'' [] soup))"

definition fold_votes ::
  "(int \<times> string \<times> string) list \<Rightarrow> (string \<rightharpoonup> string) \<Rightarrow> (string \<rightharpoonup> string)" where
  "fold_votes ps district_data = fold (\<lambda>(_, party_name, votes_count) d. d(party_name \<mapsto> votes_count)) ps district_data"

definition district_of_page :: "node \<Rightarrow> (string \<rightharpoonup> string) \<times> (int \<times> string) list" where
  "district_of_page soup =
     (fold_votes (party_list soup) (extract_district_stats soup),
      map (\<lambda>(cislo, party_name, _). (cislo, party_name)) (party_list soup))"

definition fetch_district_data ::
  "world \<Rightarrow> string \<Rightarrow> ((string \<rightharpoonup> string) \<times> (int \<times> string) list) io" where
  "fetch_district_data w url =
     bind (fetch_page w url) (\<lambda>soup. ([], Inr (district_of_page soup)))"

definition FIXED_COLUMNS :: "string list" where
  "FIXED_COLUMNS = [''code'', ''location'', ''registered'', ''envelopes'', ''valid'']"

definition csv_row :: "string list \<Rightarrow> (string \<rightharpoonup> string) \<Rightarrow> string list" where
  "csv_row csv_columns entry =
     map (\<lambda>col. case entry col of None \<Rightarrow> ''0'' | Some v \<Rightarrow> v) csv_columns"

definition write_to_csv ::
  "world \<Rightarrow> string \<Rightarrow> (string \<rightharpoonup> string) list \<Rightarrow> string list \<Rightarrow> unit io" where
  "write_to_csv w csv_file all_district_data ordered_party_names =
     (let csv_columns = FIXED_COLUMNS @ ordered_party_names in
      if can_write w csv_file
      then ([WRITE csv_file (csv_columns # map (csv_row csv_columns) all_district_data)], Inr ())
      else ([], Inl WriteError))"

text \<open>
  \<open>process_district_row\<close>: \<^verbatim>\<open>cells[0].find('a').text\<close> raises \<open>AttributeError\<close> when the cell
  has no link, \<^verbatim>\<open>cells[0].find('a')['href']\<close> raises \<open>KeyError\<close> when the link has no
  \<open>href\<close>. The caller has checked that there are two cells.
\<close>

definition process_district_row :: "node \<Rightarrow> error + (string \<times> string \<times> string)" where
  "process_district_row row =
     (let cells = find_all ''td'' [] row in
      case find ''a'' [] (cells ! 0) of
        None \<Rightarrow> Inl (Uncaught AttributeError)
      | Some a \<Rightarrow>
          (let cislo_value = strip (get_text a);
               district_name = strip (get_text (cells ! 1)) in
           case get_attr a ''href'' of
             None \<Rightarrow> Inl (Uncaught KeyError)
           | Some href \<Rightarrow> Inr (cislo_value, district_name, SITE @ href)))"

text \<open>
  The two assignments of \<open>main\<close> that complete a district's record:
  \<^verbatim>\<open>district_data['code'] = cislo_value\<close>, then
  \<^verbatim>\<open>district_data['location'] = district_name\<close>.
\<close>

definition assemble :: "string \<Rightarrow> string \<Rightarrow> (string \<rightharpoonup> string) \<Rightarrow> (string \<rightharpoonup> string)" where
  "assemble cislo_value district_name district_data =
     district_data(''code'' \<mapsto> cislo_value, ''location'' \<mapsto> district_name)"

text \<open>The test of the loop of \<open>main\<close>.\<close>

definition is_district_row :: "node \<Rightarrow> bool" where
  "is_district_row row =
     (let cells = find_all ''td'' [] row in
      if length cells > 1 then token_list (cells ! 0) ''class'' = Some [''cislo''] else False)"

text \<open>
  The loop of \<open>main\<close> over the rows, with its two accumulators.
\<close>

fun collect ::
  "world \<Rightarrow> node list \<Rightarrow> (string \<rightharpoonup> string) list \<Rightarrow> (int \<times> string) list
     \<Rightarrow> ((string \<rightharpoonup> string) list \<times> (int \<times> string) list) io" where
  "collect w [] all_district_data all_ordered_parties =
     ([], Inr (all_district_data, all_ordered_parties))"
| "collect w (row # rows) all_district_data all_ordered_parties =
     (if is_district_row row then
        (case process_district_row row of
           Inl err \<Rightarrow> ([], Inl err)
         | Inr (cislo_value, district_name, second_level_url) \<Rightarrow>
             (case fetch_district_data w second_level_url of
                (e1, Inl err) \<Rightarrow> (e1, Inl err)
              | (e1, Inr (district_data, ordered_parties)) \<Rightarrow>
                  (case collect w rows
                          (all_district_data @ [assemble cislo_value district_name district_data])
                          (all_ordered_parties @ ordered_parties) of
                     (e2, r) \<Rightarrow> (e1 @ e2, r))))
      else collect w rows all_district_data all_ordered_parties)"

text \<open>
  The last loop of \<open>main\<close>: the names in the order of the list, each at its first
  occurrence, with the set \<open>seen\<close>.
\<close>

fun first_seen :: "(int \<times> string) list \<Rightarrow> string list \<Rightarrow> string set \<Rightarrow> string list" where
  "first_seen [] ordered_party_names seen = ordered_party_names"
| "first_seen ((_, party_name) # rest) ordered_party_names seen =
     (if party_name \<notin> seen
      then first_seen rest (ordered_party_names @ [party_name]) (insert party_name seen)
      else first_seen rest ordered_party_names seen)"

definition global_party_order :: "(int \<times> string) list \<Rightarrow> string list" where
  "global_party_order all_ordered_parties = first_seen (sort_key fst all_ordered_parties) [] {}"

text \<open>\<open>main\<close> from the fetch of the resolved address on.\<close>

definition aggregate :: "world \<Rightarrow> string \<Rightarrow> string \<Rightarrow> unit io" where
  "aggregate w url csv_file =
     bind (fetch_page w url) (\<lambda>soup.
     bind (collect w (find_all ''tr'' [] soup) [] []) (\<lambda>(all_district_data, all_ordered_parties).
       if all_district_data = [] then ([], Inl EmptyResult)
       else write_to_csv w csv_file all_district_data (global_party_order all_ordered_parties)))"

definition main :: "world \<Rightarrow> string list \<Rightarrow> unit io" where
  "main w argv =
     (case validate_arguments argv of
        Inl err \<Rightarrow> ([], Inl err)
      | Inr (input_value, csv_file) \<Rightarrow>
          if py_in ''volby.cz'' input_value
          then bind (validate_url w input_value) (\<lambda>_. aggregate w input_value csv_file)
          else bind (get_url_from_name w input_value) (\<lambda>url. aggregate w url csv_file))"


section \<open>Reference definitions\<close>

text \<open>
  The specification's description of the Global Party Order: walk a list of names in
  order and keep the first occurrence of each distinct name.
\<close>

function keep_first :: "string list \<Rightarrow> string list" where
  "keep_first [] = []"
| "keep_first (n # ns) = n # keep_first (removeAll n ns)"
  by pat_completeness auto
termination
  by (relation "measure length") (simp_all add: less_Suc_eq_le length_removeAll_less_eq)

text \<open>
  The (code, name) pairs the Party Vote Extractor emits on a page, in the order of the
  rows of the page.
\<close>

definition emitted_pairs :: "node \<Rightarrow> (int \<times> string) list" where
  "emitted_pairs page =
     map (\<lambda>(code, name, votes). (code, name))
       (List.map_filter extract_party_data (find_all ''tr'' [] page))"

text \<open>A string that neither starts nor ends with white space.\<close>

definition trimmed :: "string \<Rightarrow> bool" where
  "trimmed s = (case s of [] \<Rightarrow> True | c # _ \<Rightarrow> \<not> py_isspace c \<and> \<not> py_isspace (last s))"


section \<open>Example documents\<close>

text \<open>Small documents for the examples: an element, a string, a link.\<close>

definition el :: "string \<Rightarrow> (string \<times> string) list \<Rightarrow> node list \<Rightarrow> node" where
  "el name kvs children = Tag name (map_of kvs) children"

definition str :: "string \<Rightarrow> node" where
  "str s = NavigableString s"

definition stats_page :: node where
  "stats_page = el ''[document]'' []
     [el ''tr'' []
        [el ''td'' [(''headers'', ''sa2'')] [str ('' 1'' @ [NBSP] @ ''000 '')],
         el ''td'' [(''headers'', ''sa6'')] [str ''850'']]]"

text \<open>A row of a results page: code cell, name cell, votes cell; and a heading row.\<close>

definition party_row :: "string \<Rightarrow> string \<Rightarrow> string \<Rightarrow> node" where
  "party_row c n v = el ''tr'' []
     [el ''td'' [(''class'', ''cislo''), (''headers'', ''t1sa1 t1sb1'')] [str c],
      el ''td'' [(''class'', ''overflow_name''), (''headers'', ''t1sa1 t1sb2'')] [str n],
      el ''td'' [(''class'', ''cislo''), (''headers'', ''t1sa2 t1sb3'')] [str v]]"

definition heading_row :: node where
  "heading_row = el ''tr'' [] [el ''th'' [] [str ''Strana'']]"

text \<open>A world without network: every request raises, every file can be written.\<close>

definition offline :: world where
  "offline = \<lparr> http_head = (\<lambda>url. None), http_get = (\<lambda>url. RequestException),
                can_write = (\<lambda>csv_file. True) \<rparr>"

text \<open>
  A small site: a list of two districts and their two results pages. The second page has
  no statistics cells and lists parties named \<open>registered\<close> and \<open>code\<close>.
\<close>

definition district_row :: "string \<Rightarrow> string \<Rightarrow> string \<Rightarrow> node" where
  "district_row href c n = el ''tr'' []
     [el ''td'' [(''class'', ''cislo'')] [el ''a'' [(''href'', href)] [str c]],
      el ''td'' [] [str n]]"

definition ex_list :: node where
  "ex_list = el ''[document]'' []
     [heading_row, district_row ''d1'' '' 101 '' '' Alfa '', district_row ''d2'' ''102'' ''Beta'']"

definition ex_page1 :: node where
  "ex_page1 = el ''[document]'' []
     [el ''tr'' [] [el ''td'' [(''headers'', ''sa2'')] [str (''1'' @ [NBSP] @ ''000'')]],
      party_row ''2'' ''B'' ''20'',
      party_row ''1'' ''A'' ''10'']"

definition ex_page2 :: node where
  "ex_page2 = el ''[document]'' []
     [party_row ''3'' ''registered'' ''0'',
      party_row ''1'' ''A'' ''7'',
      party_row ''4'' ''code'' ''9'']"

definition ex_url :: string where
  "ex_url = SITE @ ''ps32''"

definition ex_world :: world where
  "ex_world =
     \<lparr> http_head = (\<lambda>url. Some 200),
       http_get = (\<lambda>url.
         if url = ex_url then Response 200 ex_list
         else if url = SITE @ ''d1'' then Response 200 ex_page1
         else if url = SITE @ ''d2'' then Response 200 ex_page2
         else Response 404 (el ''[document]'' [] [])),
       can_write = (\<lambda>csv_file. True) \<rparr>"

text \<open>A site whose list of districts has a heading row only.\<close>

definition ex_empty_world :: world where
  "ex_empty_world =
     \<lparr> http_head = (\<lambda>url. Some 200),
       http_get = (\<lambda>url. Response 200 (el ''[document]'' [] [heading_row])),
       can_write = (\<lambda>csv_file. True) \<rparr>"

(*EXAMPLES*)


section \<open>The Global Party Order\<close>

lemma set_keep_first: "set (keep_first ns) = set ns"
  by (induction ns rule: keep_first.induct) auto

lemma distinct_keep_first: "distinct (keep_first ns)"
  by (induction ns rule: keep_first.induct) (auto simp: set_keep_first)

lemma length_keep_first: "length (keep_first ns) = card (set ns)"
  using distinct_card [OF distinct_keep_first, of ns] by (simp add: set_keep_first)

lemma removeAll_filter_seen:
  "removeAll n (filter (\<lambda>x. x \<notin> seen) ns) = filter (\<lambda>x. x \<notin> insert n seen) ns"
  by (induction ns) auto

lemma first_seen_keep_first:
  "first_seen xs out seen = out @ keep_first (filter (\<lambda>n. n \<notin> seen) (map snd xs))"
proof (induction xs arbitrary: out seen)
  case Nil
  show ?case by simp
next
  case (Cons p xs)
  obtain c n where p: "p = (c, n)" by (cases p)
  show ?case
    by (simp add: p Cons.IH removeAll_filter_seen)
qed

lemma global_party_order_keep_first:
  "global_party_order acc = keep_first (map snd (sort_key fst acc))"
  by (simp add: global_party_order_def first_seen_keep_first)

text \<open>
  The last loop of \<open>main\<close> on any list of (code, name) pairs: the pairs are sorted by
  code ascending (a sorted rearrangement of the same pairs, in which pairs of equal code
  keep the order they had), and the names of the sorted list are kept at their first
  occurrence. The result has no duplicates, holds exactly the names of the list, and its
  length is the number of distinct names of the list.
\<close>

lemma global_party_order_first_occurrences:
  "global_party_order acc = keep_first (map snd (sort_key fst acc))
   \<and> sorted (map fst (sort_key fst acc))
   \<and> mset (sort_key fst acc) = mset acc
   \<and> filter (\<lambda>p. fst p = c) (sort_key fst acc) = filter (\<lambda>p. fst p = c) acc
   \<and> distinct (global_party_order acc)
   \<and> set (global_party_order acc) = snd ` set acc
   \<and> length (global_party_order acc) = card (snd ` set acc)"
  by (simp add: global_party_order_keep_first distinct_keep_first length_keep_first
      set_keep_first sort_key_stable)

text \<open>
  A stable sort of two lists with the same elements gives the same list when no two
  different elements share a key.
\<close>

lemma sort_key_unique:
  assumes m: "mset xs = mset ys" and inj: "inj_on f (set xs)"
  shows "sort_key f xs = sort_key f ys"
proof (rule properties_for_sort_key)
  show "mset (sort_key f ys) = mset xs" using m by simp
  show "sorted (map f (sort_key f ys))" by simp
  fix k assume "k \<in> set (sort_key f ys)"
  then have k: "k \<in> set xs" using m by (metis mset_eq_setD set_sort)
  have eqset: "set ys = set xs" using m by (metis mset_eq_setD)
  have a: "filter (\<lambda>x. f k = f x) zs = filter ((=) k) zs" if "set zs = set xs" for zs
    by (rule filter_cong) (use that k inj in \<open>auto simp: inj_on_def\<close>)
  have "filter (\<lambda>x. f k = f x) (sort_key f ys) = filter (\<lambda>x. f k = f x) ys"
    using sort_key_stable [of f "f k" ys] by (simp add: eq_commute)
  also have "\<dots> = filter ((=) k) ys" by (rule a) (rule eqset)
  also have "\<dots> = replicate (count (mset ys) k) k"
    by (simp add: replicate_count_mset_eq_filter_eq)
  also have "\<dots> = replicate (count (mset xs) k) k" using m by simp
  also have "\<dots> = filter ((=) k) xs" by (simp add: replicate_count_mset_eq_filter_eq)
  also have "\<dots> = filter (\<lambda>x. f k = f x) xs" by (rule a [symmetric]) simp
  finally show "filter (\<lambda>x. f k = f x) (sort_key f ys) = filter (\<lambda>x. f k = f x) xs" .
qed

text \<open>
  C2, as stated, fails. Two districts that list the same code under different names
  contribute the same multiset of observations in either order of visit, but the stable
  sort keeps the order of accumulation among equal codes, so the order of the two names
  follows the order of the visits.
\<close>

theorem global_party_order_visit_order_counterexample:
  "mset ([(1, ''A'')] @ [(1, ''B'')]) = mset ([(1, ''B'')] @ [(1::int, ''A'')])
   \<and> global_party_order ([(1, ''A'')] @ [(1, ''B'')]) = [''A'', ''B'']
   \<and> global_party_order ([(1, ''B'')] @ [(1, ''A'')]) = [''B'', ''A'']
   \<and> global_party_order ([(1, ''A'')] @ [(1, ''B'')])
       \<noteq> global_party_order ([(1, ''B'')] @ [(1, ''A'')])"
proof -
  have m: "mset ([(1, ''A'')] @ [(1, ''B'')]) = mset ([(1, ''B'')] @ [(1::int, ''A'')])"
    by (simp add: add_mset_commute)
  have a: "global_party_order ([(1, ''A'')] @ [(1, ''B'')]) = [''A'', ''B'']"
    by (simp add: global_party_order_def)
  have b: "global_party_order ([(1, ''B'')] @ [(1, ''A'')]) = [''B'', ''A'']"
    by (simp add: global_party_order_def)
  have c: "[''A'', ''B''] \<noteq> [''B'', ''A'']"
    by simp
  show ?thesis
    unfolding a b by (intro conjI m refl c)
qed

text \<open>
  C2, amended. When no code is observed under two different names, two accumulations
  with the same multiset of (code, name) observations give the same Global Party Order,
  whatever the order in which the observations were accumulated.
\<close>

theorem global_party_order_permutation:
  assumes "mset xs = mset ys"
    and "\<forall>p \<in> set xs. \<forall>q \<in> set xs. fst p = fst q \<longrightarrow> snd p = snd q"
  shows "global_party_order xs = global_party_order ys"
proof -
  have "inj_on fst (set xs)"
  proof (rule inj_onI)
    fix p q
    assume pq: "p \<in> set xs" "q \<in> set xs" and k: "fst p = fst q"
    from assms(2) pq k have "snd p = snd q" by blast
    with k show "p = q" by (rule prod_eqI)
  qed
  then have "sort_key fst xs = sort_key fst ys"
    using assms(1) by (rule sort_key_unique [rotated])
  then show ?thesis by (simp add: global_party_order_def)
qed

theorem global_party_order_permutation_witness:
  "global_party_order ([(2, ''B''), (1, ''A'')] @ [(3, ''C''), (1, ''A'')])
     = global_party_order ([(3, ''C''), (1, ''A'')] @ [(2, ''B''), (1::int, ''A'')])
   \<and> global_party_order ([(2, ''B''), (1, ''A'')] @ [(3, ''C''), (1, ''A'')]) = [''A'', ''B'', ''C'']"
proof -
  have m: "mset ([(2, ''B''), (1, ''A'')] @ [(3, ''C''), (1, ''A'')])
      = mset ([(3, ''C''), (1, ''A'')] @ [(2, ''B''), (1::int, ''A'')])"
    by (simp add: add_mset_commute)
  have f: "\<forall>p \<in> set ([(2, ''B''), (1, ''A'')] @ [(3, ''C''), (1::int, ''A'')]).
      \<forall>q \<in> set ([(2, ''B''), (1, ''A'')] @ [(3, ''C''), (1, ''A'')]). fst p = fst q \<longrightarrow> snd p = snd q"
    by simp
  have v: "global_party_order ([(2, ''B''), (1, ''A'')] @ [(3, ''C''), (1, ''A'')]) = [''A'', ''B'', ''C'']"
    by (simp add: global_party_order_def)
  show ?thesis
    by (intro conjI global_party_order_permutation [OF m f] v)
qed


section \<open>The District Stat Extractor\<close>

lemma py_isspace_NBSP: "py_isspace NBSP"
  by (simp add: py_isspace_def NBSP_def)

lemma dropWhile_remove_nbsp:
  "dropWhile py_isspace (remove_nbsp s) = remove_nbsp (dropWhile py_isspace s)"
  by (induction s) (auto simp: remove_nbsp_def py_isspace_NBSP)

lemma rev_remove_nbsp: "rev (remove_nbsp s) = remove_nbsp (rev s)"
  by (simp add: remove_nbsp_def rev_filter)

lemma strip_remove_nbsp: "strip (remove_nbsp s) = remove_nbsp (strip s)"
  by (simp add: strip_def dropWhile_remove_nbsp rev_remove_nbsp)

lemma dropWhile_head: "dropWhile P s = c # cs \<Longrightarrow> \<not> P c"
  by (metis hd_dropWhile list.sel(1) list.simps(3))

lemma trimmed_strip: "trimmed (strip s)"
proof (cases "strip s")
  case Nil
  then show ?thesis by (simp add: trimmed_def)
next
  case (Cons c cs)
  let ?t = "dropWhile py_isspace (rev (dropWhile py_isspace s))"
  have st: "strip s = rev ?t" by (simp add: strip_def)
  with Cons have ne: "?t \<noteq> []" by auto
  then obtain d ds where t: "?t = d # ds" by (cases ?t) auto
  then have d: "\<not> py_isspace d" by (rule dropWhile_head)
  have l: "last (strip s) = d" using st t by simp
  have "c = last (rev (strip s))" using Cons by simp
  have u: "set ?t \<subseteq> set (dropWhile py_isspace s)"
    by (metis set_dropWhileD set_rev subsetI)
  have "dropWhile py_isspace s \<noteq> []"
  proof
    assume e: "dropWhile py_isspace s = []"
    have "?t = []" unfolding e by simp
    with ne show False by blast
  qed
  then obtain a as where a: "dropWhile py_isspace s = a # as" by (cases "dropWhile py_isspace s") auto
  then have na: "\<not> py_isspace a" by (rule dropWhile_head)
  have "rev (dropWhile py_isspace s) = rev as @ [a]" using a by simp
  then have "\<exists>pre. ?t = pre @ [a]"
    using na by (simp add: dropWhile_append)
  then obtain pre where "?t = pre @ [a]" by blast
  then have "strip s = a # rev pre" using st by simp
  with Cons have "c = a" by simp
  with na d l Cons show ?thesis by (simp add: trimmed_def)
qed

lemma cell_value_props:
  "cell_value cell = strip (remove_nbsp (get_text cell)) \<and> NBSP \<notin> set (cell_value cell) \<and> trimmed (cell_value cell)"
proof -
  have a: "cell_value cell = strip (remove_nbsp (get_text cell))"
    by (simp add: cell_value_def strip_remove_nbsp)
  have b: "NBSP \<notin> set (cell_value cell)" by (simp add: cell_value_def remove_nbsp_def)
  have c: "trimmed (cell_value cell)" unfolding a by (rule trimmed_strip)
  show ?thesis using a b c by blast
qed

text \<open>
  C7. \<open>extract_district_stats\<close> has no failing path: for every document it returns a
  dictionary with exactly the keys \<open>registered\<close>, \<open>envelopes\<close> and \<open>valid\<close>, read from the
  first cells whose \<open>headers\<close> match \<open>sa2\<close>, \<open>sa3\<close> and \<open>sa6\<close>. When such a cell is absent
  the value is \<open>N/A\<close>; when it is present the value is its text, stripped and without
  non-breaking spaces (in either order of the two operations): it holds no non-breaking
  space and does not start or end with white space.
\<close>

theorem extract_district_stats_never_fails:
  "dom (extract_district_stats soup) = {''registered'', ''envelopes'', ''valid''}
   \<and> extract_district_stats soup ''registered'' = Some (stat soup ''sa2'')
   \<and> extract_district_stats soup ''envelopes'' = Some (stat soup ''sa3'')
   \<and> extract_district_stats soup ''valid'' = Some (stat soup ''sa6'')
   \<and> (find ''td'' [(''headers'', [h])] soup = None \<longrightarrow> stat soup h = ''N/A'')
   \<and> (\<forall>cell. find ''td'' [(''headers'', [h])] soup = Some cell \<longrightarrow>
         stat soup h = remove_nbsp (strip (get_text cell))
       \<and> stat soup h = strip (remove_nbsp (get_text cell))
       \<and> NBSP \<notin> set (stat soup h) \<and> trimmed (stat soup h))"
proof -
  have d: "dom (extract_district_stats soup) = {''registered'', ''envelopes'', ''valid''}"
    by (auto simp: extract_district_stats_def split: if_splits)
  have r: "extract_district_stats soup ''registered'' = Some (stat soup ''sa2'')"
    by (simp add: extract_district_stats_def)
  have e: "extract_district_stats soup ''envelopes'' = Some (stat soup ''sa3'')"
    by (simp add: extract_district_stats_def)
  have v: "extract_district_stats soup ''valid'' = Some (stat soup ''sa6'')"
    by (simp add: extract_district_stats_def)
  have n: "find ''td'' [(''headers'', [h])] soup = None \<longrightarrow> stat soup h = ''N/A''"
    by (simp add: stat_def)
  have s: "\<forall>cell. find ''td'' [(''headers'', [h])] soup = Some cell \<longrightarrow>
         stat soup h = remove_nbsp (strip (get_text cell))
       \<and> stat soup h = strip (remove_nbsp (get_text cell))
       \<and> NBSP \<notin> set (stat soup h) \<and> trimmed (stat soup h)"
  proof (intro allI impI)
    fix cell
    assume "find ''td'' [(''headers'', [h])] soup = Some cell"
    then have sv: "stat soup h = cell_value cell" by (simp add: stat_def)
    have cv: "cell_value cell = remove_nbsp (strip (get_text cell))"
      by (simp add: cell_value_def)
    show "stat soup h = remove_nbsp (strip (get_text cell))
       \<and> stat soup h = strip (remove_nbsp (get_text cell))
       \<and> NBSP \<notin> set (stat soup h) \<and> trimmed (stat soup h)"
      unfolding sv using cell_value_props [of cell] cv by blast
  qed
  show ?thesis using d r e v n s by blast
qed

lemma find_sa2: "find ''td'' [(''headers'', [''sa2''])] stats_page
    = Some (el ''td'' [(''headers'', ''sa2'')] [str ('' 1'' @ [NBSP] @ ''000 '')])"
  by (simp add: stats_page_def el_def str_def find_def find_all_def attr_matches_def py_split_def py_isspace_def NBSP_def)

lemma find_sa3: "find ''td'' [(''headers'', [''sa3''])] stats_page = None"
  by (simp add: stats_page_def el_def str_def find_def find_all_def attr_matches_def py_split_def py_isspace_def NBSP_def)

theorem extract_district_stats_never_fails_witness:
  "extract_district_stats stats_page ''registered'' = Some ''1000''
   \<and> extract_district_stats stats_page ''envelopes'' = Some ''N/A''"
proof -
  have t: "remove_nbsp (strip (get_text (el ''td'' [(''headers'', ''sa2'')] [str ('' 1'' @ [NBSP] @ ''000 '')]))) = ''1000''"
    by (simp add: el_def str_def remove_nbsp_def strip_def py_isspace_def NBSP_def)
  have a: "stat stats_page ''sa2'' = ''1000''"
    using extract_district_stats_never_fails [of stats_page "''sa2''"] find_sa2 t by simp
  have b: "stat stats_page ''sa3'' = ''N/A''"
    using extract_district_stats_never_fails [of stats_page "''sa3''"] find_sa3 by simp
  show ?thesis
    using extract_district_stats_never_fails [of stats_page "''sa2''"] a b by simp
qed


section \<open>The Party Vote Extractor\<close>

lemma find_None_iff:
  "find name want t = None \<longleftrightarrow> \<not> (\<exists>c \<in> set (descendants t). matches_tag name want c)"
proof -
  have "find name want t = None \<longleftrightarrow> filter (matches_tag name want) (descendants t) = []"
    by (simp add: find_def find_all_def split: list.splits)
  then show ?thesis by (simp add: filter_empty_conv)
qed

lemma find_Some_first:
  assumes "find name want t = Some c"
  shows "\<exists>before after. descendants t = before @ c # after
           \<and> matches_tag name want c \<and> \<not> list_ex (matches_tag name want) before"
proof -
  from assms obtain rest where "filter (matches_tag name want) (descendants t) = c # rest"
    by (auto simp: find_def find_all_def split: list.splits)
  then obtain before after where "descendants t = before @ c # after"
      "\<forall>u \<in> set before. \<not> matches_tag name want u" "matches_tag name want c"
    by (auto simp: filter_eq_Cons_iff)
  then show ?thesis by (auto simp: list_ex_iff)
qed

text \<open>
  C4. \<open>extract_party_data\<close> emits the triple (code, name, votes) for a row exactly when the
  row has a code cell (the first \<open>td\<close> below the row, in document order, whose class
  matches \<open>cislo\<close> and whose \<open>headers\<close> match one of the two variants), a name cell (a \<open>td\<close>
  whose class matches \<open>overflow_name\<close>), at least two \<open>td\<close> cells whose class matches
  \<open>cislo\<close>, and the stripped text of the code cell parses as the integer \<open>code\<close>; then \<open>name\<close>
  is the stripped text of the name cell and \<open>votes\<close> the stripped text of the second
  \<open>cislo\<close> cell without non-breaking spaces. The code is an integer by its type. Every
  other row yields \<open>None\<close>, which is no error: such a row contributes nothing to the list
  of triples of the page.
\<close>

theorem extract_party_data_iff:
  "(extract_party_data row = Some (code, name, votes) \<longleftrightarrow>
      (\<exists>cislo_cell party_name_cell.
          code_cell row = Some cislo_cell \<and> name_cell row = Some party_name_cell
        \<and> length (vote_cells row) \<ge> 2
        \<and> py_int (strip (get_text cislo_cell)) = Some code
        \<and> name = strip (get_text party_name_cell)
        \<and> votes = remove_nbsp (strip (get_text (vote_cells row ! 1)))))
   \<and> (code_cell row \<noteq> None \<longleftrightarrow>
        (\<exists>c \<in> set (descendants row). matches_tag ''td''
           [(''class'', [''cislo'']), (''headers'', [''t1sa1 t1sb1'', ''t2sa1 t2sb1''])] c))
   \<and> (\<forall>cislo_cell. code_cell row = Some cislo_cell \<longrightarrow>
        (\<exists>before after. descendants row = before @ cislo_cell # after
           \<and> matches_tag ''td''
                [(''class'', [''cislo'']), (''headers'', [''t1sa1 t1sb1'', ''t2sa1 t2sb1''])] cislo_cell
           \<and> \<not> list_ex (matches_tag ''td''
                [(''class'', [''cislo'']), (''headers'', [''t1sa1 t1sb1'', ''t2sa1 t2sb1''])]) before))
   \<and> (name_cell row \<noteq> None \<longleftrightarrow>
        (\<exists>c \<in> set (descendants row). matches_tag ''td'' [(''class'', [''overflow_name''])] c))
   \<and> vote_cells row = filter (matches_tag ''td'' [(''class'', [''cislo''])]) (descendants row)
   \<and> (extract_party_data row = None \<longrightarrow>
        List.map_filter extract_party_data (rows1 @ row # rows2)
          = List.map_filter extract_party_data (rows1 @ rows2))"
proof -
  have a: "extract_party_data row = Some (code, name, votes) \<longleftrightarrow>
      (\<exists>cislo_cell party_name_cell.
          code_cell row = Some cislo_cell \<and> name_cell row = Some party_name_cell
        \<and> length (vote_cells row) \<ge> 2
        \<and> py_int (strip (get_text cislo_cell)) = Some code
        \<and> name = strip (get_text party_name_cell)
        \<and> votes = remove_nbsp (strip (get_text (vote_cells row ! 1))))"
    by (cases "code_cell row"; cases "name_cell row")
       (auto simp: extract_party_data_def cell_value_def split: option.splits)
  have b: "code_cell row \<noteq> None \<longleftrightarrow>
        (\<exists>c \<in> set (descendants row). matches_tag ''td''
           [(''class'', [''cislo'']), (''headers'', [''t1sa1 t1sb1'', ''t2sa1 t2sb1''])] c)"
    unfolding code_cell_def find_None_iff by blast
  have c: "\<forall>cislo_cell. code_cell row = Some cislo_cell \<longrightarrow>
        (\<exists>before after. descendants row = before @ cislo_cell # after
           \<and> matches_tag ''td''
                [(''class'', [''cislo'']), (''headers'', [''t1sa1 t1sb1'', ''t2sa1 t2sb1''])] cislo_cell
           \<and> \<not> list_ex (matches_tag ''td''
                [(''class'', [''cislo'']), (''headers'', [''t1sa1 t1sb1'', ''t2sa1 t2sb1''])]) before)"
    unfolding code_cell_def using find_Some_first by blast
  have d: "name_cell row \<noteq> None \<longleftrightarrow>
        (\<exists>c \<in> set (descendants row). matches_tag ''td'' [(''class'', [''overflow_name''])] c)"
    unfolding name_cell_def find_None_iff by blast
  have e: "vote_cells row = filter (matches_tag ''td'' [(''class'', [''cislo''])]) (descendants row)"
    by (simp add: vote_cells_def find_all_def)
  have f: "extract_party_data row = None \<longrightarrow>
        List.map_filter extract_party_data (rows1 @ row # rows2)
          = List.map_filter extract_party_data (rows1 @ rows2)"
    by (simp add: List.map_filter_def)
  show ?thesis using a b c d e f by blast
qed

text \<open>Unfolding rules for evaluating the model on concrete documents.\<close>

lemmas eval_text = py_isspace_def strip_def NBSP_def remove_nbsp_def is_decimal_def py_int_def py_split_def
lemmas eval_dom = el_def str_def token_list_def attr_matches_def find_all_def find_def

lemma code_cell_party_row:
  "code_cell (party_row '' 2 '' ''Party B'' (''1'' @ [NBSP] @ ''234''))
     = Some (el ''td'' [(''class'', ''cislo''), (''headers'', ''t1sa1 t1sb1'')] [str '' 2 ''])"
  by (simp add: party_row_def code_cell_def eval_dom eval_text)

lemma name_cell_party_row:
  "name_cell (party_row '' 2 '' ''Party B'' (''1'' @ [NBSP] @ ''234''))
     = Some (el ''td'' [(''class'', ''overflow_name''), (''headers'', ''t1sa1 t1sb2'')] [str ''Party B''])"
  by (simp add: party_row_def name_cell_def eval_dom eval_text)

lemma vote_cells_party_row:
  "vote_cells (party_row '' 2 '' ''Party B'' (''1'' @ [NBSP] @ ''234''))
     = [el ''td'' [(''class'', ''cislo''), (''headers'', ''t1sa1 t1sb1'')] [str '' 2 ''],
        el ''td'' [(''class'', ''cislo''), (''headers'', ''t1sa2 t1sb3'')] [str (''1'' @ [NBSP] @ ''234'')]]"
  by (simp add: party_row_def vote_cells_def eval_dom eval_text)

lemma extract_heading_row: "extract_party_data heading_row = None"
  by (simp add: heading_row_def extract_party_data_def code_cell_def eval_dom)

theorem extract_party_data_iff_witness:
  "extract_party_data (party_row '' 2 '' ''Party B'' (''1'' @ [NBSP] @ ''234'')) = Some (2, ''Party B'', ''1234'')
   \<and> List.map_filter extract_party_data
        [party_row '' 2 '' ''Party B'' (''1'' @ [NBSP] @ ''234''), heading_row]
      = [(2, ''Party B'', ''1234'')]"
proof -
  let ?row = "party_row '' 2 '' ''Party B'' (''1'' @ [NBSP] @ ''234'')"
  have i: "py_int (strip (get_text (el ''td'' [(''class'', ''cislo''), (''headers'', ''t1sa1 t1sb1'')] [str '' 2 '']))) = Some 2"
    by (simp add: eval_dom eval_text)
  have n: "''Party B'' = strip (get_text (el ''td'' [(''class'', ''overflow_name''), (''headers'', ''t1sa1 t1sb2'')] [str ''Party B'']))"
    by (simp add: eval_dom eval_text)
  have v: "''1234'' = remove_nbsp (strip (get_text (vote_cells ?row ! 1)))"
    unfolding vote_cells_party_row by (simp add: eval_dom eval_text)
  have l: "length (vote_cells ?row) \<ge> 2"
    unfolding vote_cells_party_row by simp
  have a: "extract_party_data ?row = Some (2, ''Party B'', ''1234'')"
    using extract_party_data_iff [of ?row 2 "''Party B''" "''1234''"]
      code_cell_party_row name_cell_party_row i n v l by blast
  have b: "List.map_filter extract_party_data ([?row] @ heading_row # []) 
      = List.map_filter extract_party_data ([?row] @ [])"
    using extract_party_data_iff [of heading_row 0 "[]" "[]" "[?row]" "[]"] extract_heading_row
    by blast
  have c: "List.map_filter extract_party_data [?row] = [(2, ''Party B'', ''1234'')]"
    using a by (simp add: List.map_filter_def)
  show ?thesis using a b c by simp
qed


section \<open>The District Locator\<close>

lemma py_in_first: "py_in (c # p) s \<Longrightarrow> c \<in> set s"
proof (induction s)
  case Nil
  then show ?case by simp
next
  case (Cons x xs)
  then show ?case by (cases "x = c") auto
qed

lemma isdigit_no_site: "isdigit s \<Longrightarrow> \<not> py_in ''volby.cz'' s"
proof
  assume d: "isdigit s" and p: "py_in ''volby.cz'' s"
  from p have "CHR ''v'' \<in> set s" by (rule py_in_first)
  with d have "py_isdigit_char CHR ''v''" by (simp add: isdigit_def list_all_iff)
  then show False by (simp add: py_isdigit_char_def)
qed

text \<open>
  C5. When the district name is purely numeric (\<open>str.isdigit\<close>), \<open>get_url_from_name\<close> ends
  the run with \<open>InvalidInput\<close> and has sent no request. So does \<open>main\<close> when called with that
  name and a well-formed file name; with any file name, \<open>main\<close> called with that name
  ends early and has sent no request and written no file.
\<close>

theorem numeric_name_invalid_input:
  assumes "isdigit district_name"
  shows "get_url_from_name w district_name = ([], Inl InvalidInput)
    \<and> (endswith (lower csv_file) ''.csv'' \<longrightarrow>
         main w [prog, district_name, csv_file] = ([], Inl InvalidInput))
    \<and> fst (main w [prog, district_name, csv_file]) = []
    \<and> isl (snd (main w [prog, district_name, csv_file]))"
proof -
  have g: "get_url_from_name w district_name = ([], Inl InvalidInput)"
    using assms by (simp add: get_url_from_name_def)
  have ne: "district_name \<noteq> []" using assms by (auto simp: isdigit_def)
  have ns: "\<not> py_in ''volby.cz'' district_name" using assms by (rule isdigit_no_site)
  have ok: "main w [prog, district_name, csv_file] = ([], Inl InvalidInput)"
    if "endswith (lower csv_file) ''.csv''"
    using that ne ns g by (simp add: main_def validate_arguments_def bind_def)
  have bad: "main w [prog, district_name, csv_file] = ([], Inl UsageError)"
    if "\<not> endswith (lower csv_file) ''.csv''"
    using that ne ns by (simp add: main_def validate_arguments_def)
  show ?thesis
    using g ok bad by (cases "endswith (lower csv_file) ''.csv''") simp_all
qed

theorem numeric_name_invalid_input_witness:
  "isdigit ''12345''
   \<and> get_url_from_name offline ''12345'' = ([], Inl InvalidInput)
   \<and> main offline [''projekt_3.py'', ''12345'', ''vysledky.CSV''] = ([], Inl InvalidInput)"
proof -
  have d: "isdigit ''12345''"
    by (simp add: isdigit_def py_isdigit_char_def)
  have e: "endswith (lower ''vysledky.CSV'') ''.csv''"
    by (simp add: endswith_def lower_def py_lower_char_def char_of_def bit_0)
  show ?thesis
    using numeric_name_invalid_input [OF d, of offline "''vysledky.CSV''" "''projekt_3.py''"] d e
    by blast
qed


section \<open>The traversal\<close>

lemma collect_acc:
  "collect w rows ds ps =
     (case collect w rows [] [] of
        (e, Inl err) \<Rightarrow> (e, Inl err)
      | (e, Inr (d, p)) \<Rightarrow> (e, Inr (ds @ d, ps @ p)))"
proof (induction rows arbitrary: ds ps)
  case Nil
  show ?case by simp
next
  case (Cons row rows)
  show ?case
  proof (cases "is_district_row row")
    case False
    then show ?thesis using Cons.IH [of ds ps] by simp
  next
    case sel: True
    show ?thesis
    proof (cases "process_district_row row")
      case (Inl err)
      with sel show ?thesis by simp
    next
      case (Inr t)
      obtain c n url where t: "t = (c, n, url)" by (cases t)
      obtain e1 r1 where f: "fetch_district_data w url = (e1, r1)"
        by (cases "fetch_district_data w url")
      show ?thesis
      proof (cases r1)
        case (Inl err)
        with sel Inr t f show ?thesis by simp
      next
        case r: (Inr dp)
        obtain dd op where dp: "dp = (dd, op)" by (cases dp)
        obtain e2 r2 where c0: "collect w rows [] [] = (e2, r2)" by (cases "collect w rows [] []")
        show ?thesis
        proof (cases r2)
          case (Inl err)
          then show ?thesis
            using sel Inr t f r dp c0 Cons.IH [of "ds @ [assemble c n dd]" "ps @ op"]
              Cons.IH [of "[assemble c n dd]" "op"]
            by simp
        next
          case r2: (Inr q)
          obtain d2 p2 where q: "q = (d2, p2)" by (cases q)
          show ?thesis
            using sel Inr t f r dp c0 r2 q Cons.IH [of "ds @ [assemble c n dd]" "ps @ op"]
              Cons.IH [of "[assemble c n dd]" "op"]
            by simp
        qed
      qed
    qed
  qed
qed

lemma fetch_page_Inr:
  "fetch_page w url = (e, Inr soup) \<longleftrightarrow> (http_get w url = Response 200 soup \<and> e = [GET url])"
  by (auto simp: fetch_page_def split: response.splits if_splits)

lemma fetch_district_data_Inr:
  "fetch_district_data w url = (e, Inr r) \<longleftrightarrow>
     (\<exists>soup. http_get w url = Response 200 soup \<and> e = [GET url] \<and> r = district_of_page soup)"
  by (auto simp: fetch_district_data_def fetch_page_def bind_def split: response.splits if_splits)

text \<open>
  A traversal that ends without error has visited the rows that pass the test of the
  loop, all of them and in order: \<open>visits\<close> lists, for each such row, what
  \<open>process_district_row\<close> returned for it and the page fetched at its address.
\<close>

lemma collect_records:
  assumes "collect w rows [] [] = (e, Inr (data, parties))"
  shows "\<exists>visits.
      map process_district_row (filter is_district_row rows)
        = map (\<lambda>(c, n, url, page). Inr (c, n, url)) visits
    \<and> list_all (\<lambda>(c, n, url, page). http_get w url = Response 200 page) visits
    \<and> data = map (\<lambda>(c, n, url, page). assemble c n (fst (district_of_page page))) visits
    \<and> parties = concat (map (\<lambda>(c, n, url, page). snd (district_of_page page)) visits)
    \<and> e = map (\<lambda>(c, n, url, page). GET url) visits"
  using assms
proof (induction rows arbitrary: e data parties)
  case Nil
  then show ?case by simp
next
  case (Cons row rows)
  show ?case
  proof (cases "is_district_row row")
    case False
    with Cons show ?thesis by simp
  next
    case True
    from Cons.prems True obtain c n url where p: "process_district_row row = Inr (c, n, url)"
      by (auto split: sum.splits)
    from Cons.prems True p obtain e1 dd op where f: "fetch_district_data w url = (e1, Inr (dd, op))"
      by (auto split: sum.splits prod.splits)
    then obtain soup where s: "http_get w url = Response 200 soup" "e1 = [GET url]"
        "(dd, op) = district_of_page soup"
      by (auto simp: fetch_district_data_Inr)
    from Cons.prems True p f obtain e2 d2 p2 where
      r: "collect w rows [] [] = (e2, Inr (d2, p2))" and
      res: "e = e1 @ e2" "data = assemble c n dd # d2" "parties = op @ p2"
      by (subst (asm) collect.simps, subst (asm) collect_acc) (auto split: sum.splits prod.splits)
    from Cons.IH [OF r] obtain visits where v:
      "map process_district_row (filter is_district_row rows)
         = map (\<lambda>(c, n, url, page). Inr (c, n, url)) visits"
      "list_all (\<lambda>(c, n, url, page). http_get w url = Response 200 page) visits"
      "d2 = map (\<lambda>(c, n, url, page). assemble c n (fst (district_of_page page))) visits"
      "p2 = concat (map (\<lambda>(c, n, url, page). snd (district_of_page page)) visits)"
      "e2 = map (\<lambda>(c, n, url, page). GET url) visits"
      by blast
    have dd: "dd = fst (district_of_page soup)" "op = snd (district_of_page soup)"
      using s(3) by (metis fst_conv, metis snd_conv)
    show ?thesis
      apply (rule exI [of _ "(c, n, url, soup) # visits"])
      using True p s v res dd by simp
  qed
qed

text \<open>What a run that reaches the end of \<open>aggregate\<close> has done.\<close>

lemma aggregate_Inr:
  assumes "aggregate w url csv_file = (effects, Inr ())"
  shows "\<exists>soup visits.
      http_get w url = Response 200 soup
    \<and> map process_district_row (filter is_district_row (find_all ''tr'' [] soup))
        = map (\<lambda>(c, n, u, page). Inr (c, n, u)) visits
    \<and> list_all (\<lambda>(c, n, u, page). http_get w u = Response 200 page) visits
    \<and> visits \<noteq> []
    \<and> effects = GET url # map (\<lambda>(c, n, u, page). GET u) visits @
        [WRITE csv_file
          ((FIXED_COLUMNS @ global_party_order
              (concat (map (\<lambda>(c, n, u, page). snd (district_of_page page)) visits)))
           # map (csv_row (FIXED_COLUMNS @ global_party_order
              (concat (map (\<lambda>(c, n, u, page). snd (district_of_page page)) visits))))
               (map (\<lambda>(c, n, u, page). assemble c n (fst (district_of_page page))) visits))]"
proof -
  obtain e1 r1 where f: "fetch_page w url = (e1, r1)" by (cases "fetch_page w url")
  from assms f obtain soup where r1: "r1 = Inr soup"
    by (cases r1) (auto simp: aggregate_def bind_def)
  with f have g: "http_get w url = Response 200 soup" "e1 = [GET url]"
    by (simp_all add: fetch_page_Inr)
  obtain e2 r2 where c: "collect w (find_all ''tr'' [] soup) [] [] = (e2, r2)"
    by (cases "collect w (find_all ''tr'' [] soup) [] []")
  from assms f r1 c obtain data parties where r2: "r2 = Inr (data, parties)"
    by (cases r2) (auto simp: aggregate_def bind_def)
  from assms f r1 c r2 have ne: "data \<noteq> []"
    by (auto simp: aggregate_def bind_def)
  from assms f r1 c r2 ne g have w: "effects = GET url # e2 @
        [WRITE csv_file ((FIXED_COLUMNS @ global_party_order parties)
           # map (csv_row (FIXED_COLUMNS @ global_party_order parties)) data)]"
    by (auto simp: aggregate_def bind_def write_to_csv_def Let_def split: if_splits)
  from collect_records [OF c [unfolded r2]] obtain visits where v:
      "map process_district_row (filter is_district_row (find_all ''tr'' [] soup))
         = map (\<lambda>(c, n, url, page). Inr (c, n, url)) visits"
      "list_all (\<lambda>(c, n, url, page). http_get w url = Response 200 page) visits"
      "data = map (\<lambda>(c, n, url, page). assemble c n (fst (district_of_page page))) visits"
      "parties = concat (map (\<lambda>(c, n, url, page). snd (district_of_page page)) visits)"
      "e2 = map (\<lambda>(c, n, url, page). GET url) visits"
    by blast
  from ne v(3) have "visits \<noteq> []" by auto
  with g v w show ?thesis by blast
qed


section \<open>The example site, evaluated\<close>

lemma ex_rows: "find_all ''tr'' [] ex_list
    = [heading_row, district_row ''d1'' '' 101 '' '' Alfa '', district_row ''d2'' ''102'' ''Beta'']"
  by (simp add: ex_list_def heading_row_def district_row_def eval_dom)

lemma ex_not_district_row: "\<not> is_district_row heading_row"
  by (simp add: heading_row_def is_district_row_def eval_dom)

lemma ex_is_district_row: "is_district_row (district_row href c n)"
  by (simp add: district_row_def is_district_row_def eval_dom eval_text)

lemma ex_process_district_row:
  "process_district_row (district_row href c n) = Inr (strip c, strip n, SITE @ href)"
  by (simp add: district_row_def process_district_row_def eval_dom)

lemma ex_extract_party_data:
  "extract_party_data (party_row c n v) =
     (case py_int (strip c) of None \<Rightarrow> None
      | Some k \<Rightarrow> Some (k, strip n, remove_nbsp (strip v)))"
  by (simp add: party_row_def extract_party_data_def code_cell_def name_cell_def vote_cells_def
      cell_value_def el_def str_def token_list_def attr_matches_def find_all_def find_def
      py_split_def py_isspace_def split: option.split)

lemma ex_not_party_row:
  "extract_party_data (el ''tr'' [] [el ''td'' [(''headers'', h)] [str s]]) = None"
  by (simp add: extract_party_data_def code_cell_def el_def str_def attr_matches_def find_all_def find_def)

lemma ex_rows1: "find_all ''tr'' [] ex_page1
    = [el ''tr'' [] [el ''td'' [(''headers'', ''sa2'')] [str (''1'' @ [NBSP] @ ''000'')]],
       party_row ''2'' ''B'' ''20'', party_row ''1'' ''A'' ''10'']"
  by (simp add: ex_page1_def party_row_def eval_dom)

lemma ex_rows2: "find_all ''tr'' [] ex_page2
    = [party_row ''3'' ''registered'' ''0'', party_row ''1'' ''A'' ''7'', party_row ''4'' ''code'' ''9'']"
  by (simp add: ex_page2_def party_row_def eval_dom)

lemma ex_party_list1: "party_list ex_page1 = [(1, ''A'', ''10''), (2, ''B'', ''20'')]"
  by (simp add: party_list_def ex_rows1 List.map_filter_def ex_extract_party_data ex_not_party_row eval_text)

lemma ex_party_list2:
  "party_list ex_page2 = [(1, ''A'', ''7''), (3, ''registered'', ''0''), (4, ''code'', ''9'')]"
  by (simp add: party_list_def ex_rows2 List.map_filter_def ex_extract_party_data eval_text)

lemma ex_stats1: "stat ex_page1 ''sa2'' = ''1000''" "stat ex_page1 ''sa3'' = ''N/A''"
    "stat ex_page1 ''sa6'' = ''N/A''"
  by (simp_all add: stat_def cell_value_def ex_page1_def party_row_def eval_dom eval_text)

lemma ex_stats2: "stat ex_page2 ''sa2'' = ''N/A''" "stat ex_page2 ''sa3'' = ''N/A''"
    "stat ex_page2 ''sa6'' = ''N/A''"
  by (simp_all add: stat_def cell_value_def ex_page2_def party_row_def eval_dom eval_text)

lemma ex_fetch:
  "fetch_page ex_world ex_url = ([GET ex_url], Inr ex_list)"
  "fetch_district_data ex_world (SITE @ ''d1'') = ([GET (SITE @ ''d1'')], Inr (district_of_page ex_page1))"
  "fetch_district_data ex_world (SITE @ ''d2'') = ([GET (SITE @ ''d2'')], Inr (district_of_page ex_page2))"
  by (simp_all add: fetch_district_data_def fetch_page_def bind_def ex_world_def ex_url_def SITE_def)

lemma ex_collect:
  "collect ex_world (find_all ''tr'' [] ex_list) [] [] =
     ([GET (SITE @ ''d1''), GET (SITE @ ''d2'')],
      Inr ([assemble ''101'' ''Alfa'' (fst (district_of_page ex_page1)),
            assemble ''102'' ''Beta'' (fst (district_of_page ex_page2))],
           snd (district_of_page ex_page1) @ snd (district_of_page ex_page2)))"
proof -
  have s: "strip '' 101 '' = ''101''" "strip '' Alfa '' = ''Alfa''" "strip ''102'' = ''102''"
    "strip ''Beta'' = ''Beta''"
    by (simp_all add: eval_text)
  obtain d1 p1 where a: "district_of_page ex_page1 = (d1, p1)" by (cases "district_of_page ex_page1")
  obtain d2 p2 where b: "district_of_page ex_page2 = (d2, p2)" by (cases "district_of_page ex_page2")
  show ?thesis
    by (simp add: ex_rows ex_not_district_row ex_is_district_row ex_process_district_row ex_fetch s a b)
qed

lemma ex_order:
  "global_party_order (snd (district_of_page ex_page1) @ snd (district_of_page ex_page2))
     = [''A'', ''B'', ''registered'', ''code'']"
  by (simp add: district_of_page_def ex_party_list1 ex_party_list2 global_party_order_def)

lemma ex_record1:
  "csv_row [''code'', ''location'', ''registered'', ''envelopes'', ''valid'', ''A'', ''B'', ''registered'', ''code'']
      (assemble ''101'' ''Alfa'' (fst (district_of_page ex_page1)))
     = [''101'', ''Alfa'', ''1000'', ''N/A'', ''N/A'', ''10'', ''20'', ''1000'', ''101'']"
  by (simp add: csv_row_def assemble_def district_of_page_def fold_votes_def
      ex_party_list1 extract_district_stats_def ex_stats1)

lemma ex_record2:
  "csv_row [''code'', ''location'', ''registered'', ''envelopes'', ''valid'', ''A'', ''B'', ''registered'', ''code'']
      (assemble ''102'' ''Beta'' (fst (district_of_page ex_page2)))
     = [''102'', ''Beta'', ''0'', ''N/A'', ''N/A'', ''7'', ''0'', ''0'', ''102'']"
  by (simp add: csv_row_def assemble_def district_of_page_def fold_votes_def
      ex_party_list2 extract_district_stats_def ex_stats2)

lemma ex_aggregate:
  "aggregate ex_world ex_url ''out.csv'' =
     ([GET ex_url, GET (SITE @ ''d1''), GET (SITE @ ''d2''),
       WRITE ''out.csv''
         [[''code'', ''location'', ''registered'', ''envelopes'', ''valid'', ''A'', ''B'', ''registered'', ''code''],
          [''101'', ''Alfa'', ''1000'', ''N/A'', ''N/A'', ''10'', ''20'', ''1000'', ''101''],
          [''102'', ''Beta'', ''0'', ''N/A'', ''N/A'', ''7'', ''0'', ''0'', ''102'']]],
      Inr ())"
proof -
  have w: "can_write ex_world ''out.csv''" by (simp add: ex_world_def)
  have h: "FIXED_COLUMNS @ [''A'', ''B'', ''registered'', ''code'']
    = [''code'', ''location'', ''registered'', ''envelopes'', ''valid'', ''A'', ''B'', ''registered'', ''code'']"
    by (simp add: FIXED_COLUMNS_def)
  show ?thesis
    unfolding aggregate_def ex_fetch bind_def
    by (simp add: ex_collect ex_order write_to_csv_def w ex_record1 ex_record2 h Let_def)
qed


section \<open>The Global Party Order of a run\<close>

lemma sort_key_eqI:
  assumes m: "mset xs = mset ys"
    and f: "\<And>k. filter (\<lambda>x. f x = k) xs = filter (\<lambda>x. f x = k) ys"
  shows "sort_key f xs = sort_key f ys"
proof (rule properties_for_sort_key)
  show "mset (sort_key f ys) = mset xs" using m by simp
  show "sorted (map f (sort_key f ys))" by simp
  fix k
  have "filter (\<lambda>x. f k = f x) (sort_key f ys) = filter (\<lambda>x. f x = f k) (sort_key f ys)"
    by (simp add: eq_commute)
  also have "\<dots> = filter (\<lambda>x. f x = f k) ys" by (rule sort_key_stable)
  also have "\<dots> = filter (\<lambda>x. f x = f k) xs" by (rule f [symmetric])
  also have "\<dots> = filter (\<lambda>x. f k = f x) xs" by (simp add: eq_commute)
  finally show "filter (\<lambda>x. f k = f x) (sort_key f ys) = filter (\<lambda>x. f k = f x) xs" .
qed

lemma ordered_parties_page:
  "snd (district_of_page page)
     = map (\<lambda>(code, name, votes). (code, name))
         (sort_key fst (List.map_filter extract_party_data (find_all ''tr'' [] page)))"
  by (simp add: district_of_page_def party_list_def)

lemma filter_code_page:
  "filter (\<lambda>x. fst x = k) (snd (district_of_page page)) = filter (\<lambda>x. fst x = k) (emitted_pairs page)"
proof -
  have c: "(\<lambda>x. fst x = k) \<circ> (\<lambda>(code, name, votes). (code, name)) = (\<lambda>t. fst t = k)"
    for k :: int
    by (auto simp: fun_eq_iff)
  show ?thesis
    by (simp add: ordered_parties_page emitted_pairs_def filter_map c sort_key_stable)
qed

lemma mset_page: "mset (snd (district_of_page page)) = mset (emitted_pairs page)"
  by (simp add: ordered_parties_page emitted_pairs_def)

text \<open>
  Sorting each district's pairs before accumulating them does not change the sorted
  accumulation: the stable sort keeps pairs of equal code in the order of the rows.
\<close>

lemma sort_accumulated:
  "sort_key fst (concat (map (\<lambda>(c, n, u, page). snd (district_of_page page)) visits))
     = sort_key fst (concat (map (\<lambda>(c, n, u, page). emitted_pairs page) visits))"
proof (rule sort_key_eqI)
  show "mset (concat (map (\<lambda>(c, n, u, page). snd (district_of_page page)) visits))
      = mset (concat (map (\<lambda>(c, n, u, page). emitted_pairs page) visits))"
    by (induction visits) (auto simp: mset_page)
  fix k
  show "filter (\<lambda>x. fst x = k) (concat (map (\<lambda>(c, n, u, page). snd (district_of_page page)) visits))
      = filter (\<lambda>x. fst x = k) (concat (map (\<lambda>(c, n, u, page). emitted_pairs page) visits))"
    by (induction visits) (auto simp: filter_code_page)
qed

lemma global_party_order_accumulated:
  "global_party_order (concat (map (\<lambda>(c, n, u, page). snd (district_of_page page)) visits))
     = global_party_order (concat (map (\<lambda>(c, n, u, page). emitted_pairs page) visits))"
  by (simp add: global_party_order_def sort_accumulated)

lemma set_emitted_pairs:
  "set (emitted_pairs page) =
     {(code, name). \<exists>row votes. row \<in> set (find_all ''tr'' [] page)
        \<and> extract_party_data row = Some (code, name, votes)}"
  by (auto simp: emitted_pairs_def List.map_filter_def image_iff split: prod.splits)
     (metis option.sel option.distinct(1) prod.inject)+

text \<open>
  C1. In every run that reaches the export, the names that follow the five fixed columns
  in the header written are the Global Party Order of the observations of the run:
  every (code, name) pair emitted by \<open>extract_party_data\<close> on a row of the page of a
  visited district, accumulated over all visited districts in the order of the visits.
  That order is obtained by sorting the accumulated list by code ascending (a stable
  sort: a sorted rearrangement in which pairs of equal code keep their order of
  accumulation) and keeping each name at its first occurrence in the sorted list. It has
  no duplicates, holds exactly the names observed, and its length is the number of
  distinct names observed across all districts.
\<close>

theorem run_global_party_order:
  assumes "aggregate w url csv_file = (effects, Inr ())"
  shows "\<exists>soup visits observations table.
      http_get w url = Response 200 soup
    \<and> map process_district_row (filter is_district_row (find_all ''tr'' [] soup))
        = map (\<lambda>(c, n, u, page). Inr (c, n, u)) visits
    \<and> list_all (\<lambda>(c, n, u, page). http_get w u = Response 200 page) visits
    \<and> observations = concat (map (\<lambda>(c, n, u, page). emitted_pairs page) visits)
    \<and> effects = GET url # map (\<lambda>(c, n, u, page). GET u) visits @
        [WRITE csv_file ((FIXED_COLUMNS @ global_party_order observations) # table)]
    \<and> global_party_order observations = keep_first (map snd (sort_key fst observations))
    \<and> sorted (map fst (sort_key fst observations))
    \<and> mset (sort_key fst observations) = mset observations
    \<and> (\<forall>code. filter (\<lambda>p. fst p = code) (sort_key fst observations)
          = filter (\<lambda>p. fst p = code) observations)
    \<and> distinct (global_party_order observations)
    \<and> set (global_party_order observations) = snd ` set observations
    \<and> length (global_party_order observations) = card (snd ` set observations)
    \<and> set observations =
        {(code, name). \<exists>c n u page row votes. (c, n, u, page) \<in> set visits
           \<and> row \<in> set (find_all ''tr'' [] page)
           \<and> extract_party_data row = Some (code, name, votes)}"
proof -
  from aggregate_Inr [OF assms] obtain soup visits where a:
    "http_get w url = Response 200 soup"
    "map process_district_row (filter is_district_row (find_all ''tr'' [] soup))
        = map (\<lambda>(c, n, u, page). Inr (c, n, u)) visits"
    "list_all (\<lambda>(c, n, u, page). http_get w u = Response 200 page) visits"
    "effects = GET url # map (\<lambda>(c, n, u, page). GET u) visits @
        [WRITE csv_file
          ((FIXED_COLUMNS @ global_party_order
              (concat (map (\<lambda>(c, n, u, page). snd (district_of_page page)) visits)))
           # map (csv_row (FIXED_COLUMNS @ global_party_order
              (concat (map (\<lambda>(c, n, u, page). snd (district_of_page page)) visits))))
               (map (\<lambda>(c, n, u, page). assemble c n (fst (district_of_page page))) visits))]"
    by blast
  define observations where
    "observations = concat (map (\<lambda>(c, n, u, page). emitted_pairs page) visits)"
  define table where
    "table = map (csv_row (FIXED_COLUMNS @ global_party_order observations))
               (map (\<lambda>(c, n, u, page). assemble c n (fst (district_of_page page))) visits)"
  have e: "effects = GET url # map (\<lambda>(c, n, u, page). GET u) visits @
        [WRITE csv_file ((FIXED_COLUMNS @ global_party_order observations) # table)]"
    using a(4) by (simp add: global_party_order_accumulated observations_def table_def)
  have s: "set observations =
        {(code, name). \<exists>c n u page row votes. (c, n, u, page) \<in> set visits
           \<and> row \<in> set (find_all ''tr'' [] page)
           \<and> extract_party_data row = Some (code, name, votes)}"
    unfolding observations_def by (auto simp: set_emitted_pairs) blast+
  have k: "global_party_order observations = keep_first (map snd (sort_key fst observations))"
    by (rule global_party_order_keep_first)
  have d: "distinct (global_party_order observations)"
    unfolding k by (rule distinct_keep_first)
  have n: "set (global_party_order observations) = snd ` set observations"
    unfolding k by (simp add: set_keep_first)
  have l: "length (global_party_order observations) = card (snd ` set observations)"
    unfolding k by (simp add: length_keep_first)
  have st: "\<forall>code. filter (\<lambda>p. fst p = code) (sort_key fst observations)
          = filter (\<lambda>p. fst p = code) observations"
    by (simp add: sort_key_stable)
  have so: "sorted (map fst (sort_key fst observations))"
    "mset (sort_key fst observations) = mset observations"
    by simp_all
  show ?thesis
    using a(1,2,3) observations_def e k so st d n l s by blast
qed

theorem run_global_party_order_witness:
  "\<exists>effects (visits :: (string \<times> string \<times> string \<times> node) list) observations table.
      aggregate ex_world ex_url ''out.csv'' = (effects, Inr ())
    \<and> last effects = WRITE ''out.csv''
         [[''code'', ''location'', ''registered'', ''envelopes'', ''valid'',
           ''A'', ''B'', ''registered'', ''code''],
          [''101'', ''Alfa'', ''1000'', ''N/A'', ''N/A'', ''10'', ''20'', ''1000'', ''101''],
          [''102'', ''Beta'', ''0'', ''N/A'', ''N/A'', ''7'', ''0'', ''0'', ''102'']]
    \<and> observations = concat (map (\<lambda>(c, n, u, page). emitted_pairs page) visits)
    \<and> effects = GET ex_url # map (\<lambda>(c, n, u, page). GET u) visits @
        [WRITE ''out.csv'' ((FIXED_COLUMNS @ global_party_order observations) # table)]
    \<and> global_party_order observations = keep_first (map snd (sort_key fst observations))
    \<and> length (global_party_order observations) = card (snd ` set observations)"
proof -
  let ?effects = "[GET ex_url, GET (SITE @ ''d1''), GET (SITE @ ''d2''),
       WRITE ''out.csv''
         [[''code'', ''location'', ''registered'', ''envelopes'', ''valid'', ''A'', ''B'', ''registered'', ''code''],
          [''101'', ''Alfa'', ''1000'', ''N/A'', ''N/A'', ''10'', ''20'', ''1000'', ''101''],
          [''102'', ''Beta'', ''0'', ''N/A'', ''N/A'', ''7'', ''0'', ''0'', ''102'']]]"
  have l: "last ?effects = WRITE ''out.csv''
         [[''code'', ''location'', ''registered'', ''envelopes'', ''valid'',
           ''A'', ''B'', ''registered'', ''code''],
          [''101'', ''Alfa'', ''1000'', ''N/A'', ''N/A'', ''10'', ''20'', ''1000'', ''101''],
          [''102'', ''Beta'', ''0'', ''N/A'', ''N/A'', ''7'', ''0'', ''0'', ''102'']]"
    by simp
  from run_global_party_order [OF ex_aggregate]
  obtain visits :: "(string \<times> string \<times> string \<times> node) list" and observations table where r:
    "observations = concat (map (\<lambda>(c, n, u, page). emitted_pairs page) visits)"
    "?effects = GET ex_url # map (\<lambda>(c, n, u, page). GET u) visits @
        [WRITE ''out.csv'' ((FIXED_COLUMNS @ global_party_order observations) # table)]"
    "global_party_order observations = keep_first (map snd (sort_key fst observations))"
    "length (global_party_order observations) = card (snd ` set observations)"
    by blast
  show ?thesis
    apply (rule exI [of _ ?effects])
    apply (rule exI [of _ visits])
    apply (rule exI [of _ observations])
    apply (rule exI [of _ table])
    apply (intro conjI ex_aggregate l r)
    done
qed


section \<open>A run without districts\<close>

lemma fst_fetch_district_data: "fst (fetch_district_data w url) = [GET url]"
  by (simp add: fetch_district_data_def fetch_page_def bind_def split: response.splits)

lemma collect_effects: "\<exists>urls. fst (collect w rows ds ps) = map GET urls"
proof (induction rows arbitrary: ds ps)
  case Nil
  show ?case by simp
next
  case (Cons row rows)
  show ?case
  proof (cases "is_district_row row")
    case False
    then show ?thesis using Cons.IH [of ds ps] by simp
  next
    case sel: True
    show ?thesis
    proof (cases "process_district_row row")
      case (Inl err)
      with sel show ?thesis by simp
    next
      case (Inr t)
      obtain c n url where t: "t = (c, n, url)" by (cases t)
      obtain e1 r1 where f: "fetch_district_data w url = (e1, r1)"
        by (cases "fetch_district_data w url")
      then have e1: "e1 = map GET [url]"
        using fst_fetch_district_data [of w url] by simp
      show ?thesis
      proof (cases r1)
        case (Inl err)
        with sel Inr t f e1 show ?thesis by (simp del: list.map) (rule exI [of _ "[url]"], simp)
      next
        case r: (Inr dp)
        obtain dd op where dp: "dp = (dd, op)" by (cases dp)
        obtain e2 r2 where c2: "collect w rows (ds @ [assemble c n dd]) (ps @ op) = (e2, r2)"
          by (cases "collect w rows (ds @ [assemble c n dd]) (ps @ op)")
        from Cons.IH [of "ds @ [assemble c n dd]" "ps @ op"] c2 obtain urls where
          u: "e2 = map GET urls"
          by auto
        have "fst (collect w (row # rows) ds ps) = map GET (url # urls)"
          using sel Inr t f r dp u e1 c2 by simp
        then show ?thesis by blast
      qed
    qed
  qed
qed

lemma collect_no_write: "WRITE f t \<notin> set (fst (collect w rows ds ps))"
proof -
  obtain urls where "fst (collect w rows ds ps) = map GET urls"
    using collect_effects by blast
  then show ?thesis by auto
qed

lemma collect_not_empty_result: "snd (collect w rows ds ps) \<noteq> Inl EmptyResult"
proof (induction rows arbitrary: ds ps)
  case Nil
  show ?case by simp
next
  case (Cons row rows)
  show ?case
  proof (cases "is_district_row row")
    case False
    then show ?thesis using Cons.IH [of ds ps] by simp
  next
    case sel: True
    show ?thesis
    proof (cases "process_district_row row")
      case (Inl err)
      then have "err \<noteq> EmptyResult"
        by (auto simp: process_district_row_def Let_def split: option.splits)
      with sel Inl show ?thesis by simp
    next
      case (Inr t)
      obtain c n url where t: "t = (c, n, url)" by (cases t)
      obtain e1 r1 where f: "fetch_district_data w url = (e1, r1)"
        by (cases "fetch_district_data w url")
      show ?thesis
      proof (cases r1)
        case (Inl err)
        with f have "err \<noteq> EmptyResult"
          by (auto simp: fetch_district_data_def fetch_page_def bind_def
              split: response.splits if_splits)
        with sel Inr t f Inl show ?thesis by simp
      next
        case r: (Inr dp)
        obtain dd op where dp: "dp = (dd, op)" by (cases dp)
        obtain e2 r2 where c2: "collect w rows (ds @ [assemble c n dd]) (ps @ op) = (e2, r2)"
          by (cases "collect w rows (ds @ [assemble c n dd]) (ps @ op)")
        with Cons.IH [of "ds @ [assemble c n dd]" "ps @ op"] have "r2 \<noteq> Inl EmptyResult"
          by simp
        then show ?thesis
          using sel Inr t f r dp c2 by simp
      qed
    qed
  qed
qed

text \<open>A file is written only by a run of \<open>aggregate\<close> that ends without error.\<close>

lemma aggregate_write:
  assumes "WRITE f t \<in> set (fst (aggregate w url csv_file))"
  shows "snd (aggregate w url csv_file) = Inr ()"
proof -
  obtain e1 r1 where p: "fetch_page w url = (e1, r1)" by (cases "fetch_page w url")
  then have e1: "e1 = [GET url]" by (auto simp: fetch_page_def)
  show ?thesis
  proof (cases r1)
    case (Inl err)
    with assms p e1 show ?thesis by (simp add: aggregate_def bind_def)
  next
    case (Inr soup)
    obtain e2 r2 where c: "collect w (find_all ''tr'' [] soup) [] [] = (e2, r2)"
      by (cases "collect w (find_all ''tr'' [] soup) [] []")
    then have nw: "WRITE f t \<notin> set e2"
      using collect_no_write [of f t w "find_all ''tr'' [] soup" "[]" "[]"] by simp
    show ?thesis
    proof (cases r2)
      case (Inl err)
      with assms p e1 Inr c nw show ?thesis by (simp add: aggregate_def bind_def)
    next
      case r2: (Inr dp)
      obtain data parties where dp: "dp = (data, parties)" by (cases dp)
      show ?thesis
        using assms p e1 Inr c nw r2 dp
        by (auto simp: aggregate_def bind_def write_to_csv_def Let_def split: if_splits)
    qed
  qed
qed

lemma main_write:
  assumes "WRITE f t \<in> set (fst (main w argv))"
  shows "snd (main w argv) = Inr ()"
proof (cases "validate_arguments argv")
  case (Inl err)
  with assms show ?thesis by (simp add: main_def)
next
  case (Inr a)
  obtain input_value csv_file where a: "a = (input_value, csv_file)" by (cases a)
  obtain e2 r2 where g: "aggregate w input_value csv_file = (e2, r2)"
    by (cases "aggregate w input_value csv_file")
  show ?thesis
  proof (cases "py_in ''volby.cz'' input_value")
    case True
    show ?thesis
    proof (cases "http_head w input_value = Some 200")
      case ok: True
      with assms Inr a True g have "WRITE f t \<in> set e2"
        by (simp add: main_def bind_def validate_url_def)
      then have "r2 = Inr ()" using aggregate_write [of f t w input_value csv_file] g by simp
      with Inr a True g ok show ?thesis by (simp add: main_def bind_def validate_url_def)
    next
      case False
      with assms Inr a True show ?thesis
        by (auto simp: main_def bind_def validate_url_def split: option.splits)
    qed
  next
    case False
    obtain e1 r1 where u: "get_url_from_name w input_value = (e1, r1)"
      by (cases "get_url_from_name w input_value")
    then have e1: "WRITE f t \<notin> set e1"
      by (auto simp: get_url_from_name_def bind_def fetch_page_def
          split: if_splits response.splits)
    show ?thesis
    proof (cases r1)
      case (Inl err)
      with assms Inr a False u e1 show ?thesis by (simp add: main_def bind_def)
    next
      case url: (Inr url)
      obtain e3 r3 where h: "aggregate w url csv_file = (e3, r3)"
        by (cases "aggregate w url csv_file")
      with assms Inr a False u e1 url have "WRITE f t \<in> set e3"
        by (simp add: main_def bind_def)
      then have "r3 = Inr ()" using aggregate_write [of f t w url csv_file] h by simp
      with Inr a False u url h show ?thesis by (simp add: main_def bind_def)
    qed
  qed
qed

text \<open>
  C8. When the page at the resolved address is fetched and the traversal of its rows
  ends with zero district records, \<open>aggregate\<close> (the part of \<open>main\<close> from that fetch on) ends
  with \<open>EmptyResult\<close>, having sent that one request and written nothing; the traversal has
  then found no row that passes its test. So \<open>main\<close> ends with \<open>EmptyResult\<close>, on either
  way of resolving the address; and no run of \<open>main\<close> that ends with \<open>EmptyResult\<close> has
  written a file.
\<close>

theorem zero_districts_empty_result:
  assumes "http_get w url = Response 200 soup"
    and "collect w (find_all ''tr'' [] soup) [] [] = (e, Inr ([], parties))"
  shows "aggregate w url csv_file = ([GET url], Inl EmptyResult)
    \<and> e = [] \<and> parties = []
    \<and> filter is_district_row (find_all ''tr'' [] soup) = []
    \<and> (validate_arguments argv = Inr (url, csv_file) \<and> py_in ''volby.cz'' url
         \<and> http_head w url = Some 200
        \<longrightarrow> main w argv = ([HEAD url, GET url], Inl EmptyResult))
    \<and> (\<forall>district_name e0. validate_arguments argv = Inr (district_name, csv_file)
         \<and> \<not> py_in ''volby.cz'' district_name
         \<and> get_url_from_name w district_name = (e0, Inr url)
        \<longrightarrow> main w argv = (e0 @ [GET url], Inl EmptyResult))
    \<and> (\<forall>args effects f t. main w args = (effects, Inl EmptyResult)
        \<longrightarrow> WRITE f t \<notin> set effects)"
proof -
  from collect_records [OF assms(2)] obtain visits where v:
    "map process_district_row (filter is_district_row (find_all ''tr'' [] soup))
       = map (\<lambda>(c, n, url, page). Inr (c, n, url)) visits"
    "[] = map (\<lambda>(c, n, url, page). assemble c n (fst (district_of_page page))) visits"
    "parties = concat (map (\<lambda>(c, n, url, page). snd (district_of_page page)) visits)"
    "e = map (\<lambda>(c, n, url, page). GET url) visits"
    by blast
  from v(2) have vs: "visits = []" by simp
  have e: "e = []" and p: "parties = []" using v(3,4) vs by simp_all
  have f: "filter is_district_row (find_all ''tr'' [] soup) = []"
    using v(1) vs by simp
  have a: "aggregate w url csv_file = ([GET url], Inl EmptyResult)"
    using assms e by (simp add: aggregate_def bind_def fetch_page_def)
  have m1: "validate_arguments argv = Inr (url, csv_file) \<and> py_in ''volby.cz'' url
         \<and> http_head w url = Some 200
        \<longrightarrow> main w argv = ([HEAD url, GET url], Inl EmptyResult)"
    using a by (simp add: main_def bind_def validate_url_def)
  have m2: "\<forall>district_name e0. validate_arguments argv = Inr (district_name, csv_file)
         \<and> \<not> py_in ''volby.cz'' district_name
         \<and> get_url_from_name w district_name = (e0, Inr url)
        \<longrightarrow> main w argv = (e0 @ [GET url], Inl EmptyResult)"
    using a by (simp add: main_def bind_def)
  have m3: "\<forall>args effects f t. main w args = (effects, Inl EmptyResult)
        \<longrightarrow> WRITE f t \<notin> set effects"
  proof (intro allI impI)
    fix args effects f t
    assume r: "main w args = (effects, Inl EmptyResult)"
    show "WRITE f t \<notin> set effects"
    proof
      assume "WRITE f t \<in> set effects"
      with r have "snd (main w args) = Inr ()" using main_write [of f t w args] by simp
      with r show False by simp
    qed
  qed
  show ?thesis using a e p f m1 m2 m3 by blast
qed

lemma ex_empty_collect:
  "collect ex_empty_world (find_all ''tr'' [] (el ''[document]'' [] [heading_row])) [] []
     = ([], Inr ([], []))"
proof -
  have r: "find_all ''tr'' [] (el ''[document]'' [] [heading_row]) = [heading_row]"
    by (simp add: heading_row_def eval_dom)
  show ?thesis by (simp add: r ex_not_district_row)
qed

theorem zero_districts_empty_result_witness:
  "aggregate ex_empty_world ''https://volby.cz/ps32'' ''out.csv''
     = ([GET ''https://volby.cz/ps32''], Inl EmptyResult)
   \<and> main ex_empty_world [''projekt_3.py'', ''https://volby.cz/ps32'', ''out.csv'']
     = ([HEAD ''https://volby.cz/ps32'', GET ''https://volby.cz/ps32''], Inl EmptyResult)"
proof -
  have g: "http_get ex_empty_world ''https://volby.cz/ps32''
      = Response 200 (el ''[document]'' [] [heading_row])"
    by (simp add: ex_empty_world_def)
  have h: "http_head ex_empty_world ''https://volby.cz/ps32'' = Some 200"
    by (simp add: ex_empty_world_def)
  have p: "py_in ''volby.cz'' ''https://volby.cz/ps32''"
    by simp
  have e: "endswith (lower ''out.csv'') ''.csv''"
    by (simp add: endswith_def lower_def py_lower_char_def)
  have v: "validate_arguments [''projekt_3.py'', ''https://volby.cz/ps32'', ''out.csv'']
      = Inr (''https://volby.cz/ps32'', ''out.csv'')"
    using p e by (simp add: validate_arguments_def)
  show ?thesis
    using zero_districts_empty_result [OF g ex_empty_collect,
        of "''out.csv''" "[''projekt_3.py'', ''https://volby.cz/ps32'', ''out.csv'']"]
      v p h
    by blast
qed

end
